theory Spec2Isabelle
  imports
    Main
    "HOL-Library.Multiset"
    "HOL-Library.Char_ord"
    "HOL-Library.List_Lexorder"
    "HOL-Library.Product_Lexorder"
    "HOL-Library.Word"
begin

section \<open>Strings\<close>

text \<open>
  Python strings are modelled as \<^typ>\<open>string\<close>. The built-in methods the two scripts
  call on them (\<^verbatim>\<open>str.lower\<close>, \<^verbatim>\<open>str.strip\<close>, \<^verbatim>\<open>str.split\<close>,
  \<^verbatim>\<open>str.join\<close>) are written out for the ASCII range: \<open>lower\<close> maps
  \<^verbatim>\<open>A\<close>..\<^verbatim>\<open>Z\<close> to \<^verbatim>\<open>a\<close>..\<^verbatim>\<open>z\<close> and leaves every other character
  alone, and white space is the set of ASCII characters for which \<^verbatim>\<open>str.isspace\<close> holds.
  The general theorems below use no property of \<open>lower\<close>, and of \<open>split\<close> only that
  the words it returns are not empty.
\<close>

definition lower_char :: "char \<Rightarrow> char" where
  "lower_char c =
     (let n = (of_char c :: nat) in if 65 \<le> n \<and> n \<le> 90 then char_of (n + 32) else c)"

definition lower :: "string \<Rightarrow> string" where
  "lower s = map lower_char s"

definition is_space :: "char \<Rightarrow> bool" where
  "is_space c =
     (let n = (of_char c :: nat) in (9 \<le> n \<and> n \<le> 13) \<or> (28 \<le> n \<and> n \<le> 32))"

text \<open>\<^verbatim>\<open>s.strip()\<close>: white space removed at both ends.\<close>

definition strip :: "string \<Rightarrow> string" where
  "strip s = rev (dropWhile is_space (rev (dropWhile is_space s)))"

text \<open>
  \<^verbatim>\<open>s.split()\<close>: the maximal runs of non-space characters, in order. The first argument
  of \<open>split_from\<close> is the word being read.
\<close>

fun split_from :: "string \<Rightarrow> string \<Rightarrow> string list" where
  "split_from cur [] = (if cur = [] then [] else [cur])"
| "split_from cur (c # s) =
     (if is_space c then (if cur = [] then split_from [] s else cur # split_from [] s)
      else split_from (cur @ [c]) s)"

definition split :: "string \<Rightarrow> string list" where
  "split s = split_from [] s"

text \<open>\<^verbatim>\<open>sep.join(words)\<close>.\<close>

fun join :: "string \<Rightarrow> string list \<Rightarrow> string" where
  "join sep [] = []"
| "join sep [w] = w"
| "join sep (w # ws) = w @ sep @ join sep ws"

section \<open>Insertion-ordered dictionaries\<close>

text \<open>
  A Python \<^verbatim>\<open>dict\<close> keeps its keys in insertion order, and the scripts iterate over
  \<^verbatim>\<open>.values()\<close> and \<^verbatim>\<open>.items()\<close>. A dictionary is therefore an association list with
  distinct keys: \<^const>\<open>map_of\<close> reads it, and \<open>dict_set\<close> is the assignment
  \<^verbatim>\<open>d[k] = v\<close>, which overwrites in place or appends a new key at the end.
\<close>

fun dict_set :: "('k \<times> 'v) list \<Rightarrow> 'k \<Rightarrow> 'v \<Rightarrow> ('k \<times> 'v) list" where
  "dict_set [] k v = [(k, v)]"
| "dict_set ((k', v') # d) k v =
     (if k' = k then (k, v) # d else (k', v') # dict_set d k v)"

section \<open>The Extractor (\<^verbatim>\<open>1_extract-noun-phrases.py\<close>)\<close>

subsection \<open>Leading stop words\<close>

text \<open>
  The loop \<^verbatim>\<open>while words and words[0].lower() in stop_words: words.pop(0)\<close>.
\<close>

fun pop_stopwords :: "string set \<Rightarrow> string list \<Rightarrow> string list" where
  "pop_stopwords stop_words [] = []"
| "pop_stopwords stop_words (w # words) =
     (if lower w \<in> stop_words then pop_stopwords stop_words words else w # words)"

definition strip_leading_stopwords :: "string \<Rightarrow> string set \<Rightarrow> string" where
  "strip_leading_stopwords phrase stop_words =
     join '' '' (pop_stopwords stop_words (split phrase))"

subsection \<open>Input tables\<close>

text \<open>
  One row of an input table. A cell is \<open>None\<close> where pandas holds NaN (an empty field of
  the file).
\<close>

record sentence_row =
  sentence :: "string option"
  title :: "string option"
  date :: "string option"

type_synonym article_key = "string \<times> string"

text \<open>The pair \<open>(orig, count)\<close> stored under a phrase key.\<close>

type_synonym phrase_dict = "(string \<times> (string \<times> nat)) list"

text \<open>\<^verbatim>\<open>article_noun_phrases\<close>: a \<^verbatim>\<open>defaultdict\<close> of dictionaries, keyed by article.\<close>

type_synonym article_dict = "(article_key \<times> phrase_dict) list"

subsection \<open>Per-article deduplication\<close>

text \<open>
  Lines 117 to 128, on the dictionary of one article: the key is the lower-cased phrase;
  a key already present has its count incremented and its original replaced when the new
  phrase has upper case and the stored one has none; a new key is stored with count 1.
\<close>

definition add_phrase :: "phrase_dict \<Rightarrow> string \<Rightarrow> phrase_dict" where
  "add_phrase d phrase =
     (let phrase_key = lower phrase in
      case map_of d phrase_key of
        Some (orig, cnt) \<Rightarrow>
          dict_set d phrase_key
            (if phrase \<noteq> phrase_key \<and> orig = phrase_key then phrase else orig, cnt + 1)
      | None \<Rightarrow> dict_set d phrase_key (phrase, 1))"

text \<open>
  The same lines on the whole \<^verbatim>\<open>defaultdict\<close>: reading
  \<^verbatim>\<open>article_noun_phrases[article_key]\<close> creates an empty dictionary for an article seen
  for the first time.
\<close>

definition record_phrase :: "article_dict \<Rightarrow> article_key \<Rightarrow> string \<Rightarrow> article_dict" where
  "record_phrase st article_key phrase =
     (let d = (case map_of st article_key of Some d \<Rightarrow> d | None \<Rightarrow> [])
      in dict_set st article_key (add_phrase d phrase))"

text \<open>
  The body of the chunk loop (lines 108 to 128): \<open>None\<close> stands for \<^verbatim>\<open>continue\<close>, and
  \<open>clean_phrase\<close> is the phrase that reaches the dictionary.
\<close>

definition clean_phrase :: "string set \<Rightarrow> string \<Rightarrow> string option" where
  "clean_phrase stop_words chunk_text =
     (let phrase = strip chunk_text in
      if phrase = [] then None
      else let phrase = strip_leading_stopwords phrase stop_words in
        if phrase = [] then None else Some phrase)"

definition process_chunk ::
  "string set \<Rightarrow> article_key \<Rightarrow> article_dict \<Rightarrow> string \<Rightarrow> article_dict" where
  "process_chunk stop_words article_key st chunk_text =
     (case clean_phrase stop_words chunk_text of
        None \<Rightarrow> st
      | Some phrase \<Rightarrow> record_phrase st article_key phrase)"

subsection \<open>Grouping rows into articles\<close>

text \<open>\<^verbatim>\<open>df.dropna(subset=[TEXT_COLUMN])\<close>.\<close>

definition dropna_sentence :: "sentence_row list \<Rightarrow> sentence_row list" where
  "dropna_sentence df = filter (\<lambda>r. sentence r \<noteq> None) df"

text \<open>
  \<^verbatim>\<open>df.groupby([TITLE_COLUMN, DATE_COLUMN])\<close> with the defaults of pandas: a row with a
  missing value in a key column belongs to no group (\<^verbatim>\<open>dropna=True\<close>), the groups come in
  ascending order of their keys (\<^verbatim>\<open>sort=True\<close>), and each group keeps its rows in the
  order of the table.
\<close>

definition row_key :: "sentence_row \<Rightarrow> article_key option" where
  "row_key r =
     (case title r of None \<Rightarrow> None
      | Some t \<Rightarrow> (case date r of None \<Rightarrow> None | Some d \<Rightarrow> Some (t, d)))"

definition group_keys :: "sentence_row list \<Rightarrow> article_key list" where
  "group_keys df = sort (remdups (List.map_filter row_key df))"

definition article_groups :: "sentence_row list \<Rightarrow> (article_key \<times> sentence_row list) list" where
  "article_groups df =
     map (\<lambda>k. (k, filter (\<lambda>r. row_key r = Some k) df)) (group_keys df)"

text \<open>
  \<^verbatim>\<open>group[TEXT_COLUMN].astype(str).str.strip().tolist()\<close>; \<^verbatim>\<open>astype(str)\<close> turns a
  missing value into the text \<^verbatim>\<open>nan\<close>.
\<close>

definition astype_str :: "string option \<Rightarrow> string" where
  "astype_str v = (case v of Some s \<Rightarrow> s | None \<Rightarrow> ''nan'')"

definition sentences :: "sentence_row list \<Rightarrow> string list" where
  "sentences grp = map (\<lambda>r. strip (astype_str (sentence r))) grp"

subsection \<open>The article loop\<close>

text \<open>
  The chunker is the external collaborator: \<open>nlp s\<close> is the list of the texts of
  \<^verbatim>\<open>doc.noun_chunks\<close> for the sentence \<open>s\<close>, in order of appearance. The stop-word set
  comes from the same library. Both are parameters.
\<close>

type_synonym chunker = "string \<Rightarrow> string list"

definition process_doc ::
  "string set \<Rightarrow> chunker \<Rightarrow> article_key \<Rightarrow> article_dict \<Rightarrow> string \<Rightarrow> article_dict" where
  "process_doc stop_words nlp article_key st s =
     foldl (process_chunk stop_words article_key) st (nlp s)"

definition process_article ::
  "string set \<Rightarrow> chunker \<Rightarrow> article_dict \<Rightarrow> article_key \<times> sentence_row list \<Rightarrow> article_dict"
  where
  "process_article stop_words nlp st g =
     foldl (process_doc stop_words nlp (fst g)) st (sentences (snd g))"

definition article_noun_phrases ::
  "string set \<Rightarrow> chunker \<Rightarrow> (article_key \<times> sentence_row list) list \<Rightarrow> article_dict" where
  "article_noun_phrases stop_words nlp groups =
     foldl (process_article stop_words nlp) [] groups"

subsection \<open>Per-table aggregation\<close>

text \<open>Lines 133 to 141: one item of one article's dictionary enters \<^verbatim>\<open>csv_noun_dict\<close>.\<close>

definition merge_item :: "phrase_dict \<Rightarrow> string \<times> (string \<times> nat) \<Rightarrow> phrase_dict" where
  "merge_item d item =
     (case item of (phrase_key, (orig_phrase, cnt)) \<Rightarrow>
        (case map_of d phrase_key of
           Some (old_orig, old_count) \<Rightarrow>
             dict_set d phrase_key
               (if orig_phrase \<noteq> phrase_key \<and> old_orig = phrase_key then orig_phrase
                else old_orig,
                old_count + cnt)
         | None \<Rightarrow> dict_set d phrase_key (orig_phrase, cnt)))"

definition csv_noun_dict :: "article_dict \<Rightarrow> phrase_dict" where
  "csv_noun_dict anp =
     foldl (\<lambda>d article_phrases. foldl merge_item d article_phrases) [] (map snd anp)"

text \<open>A row of an output table.\<close>

record phrase_record =
  phrase :: string
  pos :: string
  count_n :: int
  csv_source :: string

text \<open>The list handed to \<^verbatim>\<open>pd.DataFrame\<close> at lines 144 to 146.\<close>

definition csv_records :: "string \<Rightarrow> phrase_dict \<Rightarrow> phrase_record list" where
  "csv_records csv_name d =
     map (\<lambda>v. \<lparr>phrase = fst v, pos = ''NOUN_PHRASE'', count_n = int (snd v),
               csv_source = csv_name\<rparr>) (map snd d)"

datatype py_error = KeyError string | ValueError string | TypeError

text \<open>
  \<^verbatim>\<open>sort_values("count", ascending=False)\<close> is called with the default
  \<^verbatim>\<open>kind="quicksort"\<close>: the result holds the same rows in descending order of their
  counts, and the library decides the order of rows with equal counts. The predicate says
  that \<open>out\<close> is such a result for the frame \<open>df\<close>.
\<close>

definition sort_values_count :: "phrase_record list \<Rightarrow> phrase_record list \<Rightarrow> bool" where
  "sort_values_count df out =
     (mset out = mset df \<and> sorted_wrt (\<lambda>a b. count_n b \<le> count_n a) out)"

text \<open>
  One input table (the body of the loop over \<^verbatim>\<open>csv_files\<close>, lines 75 to 147). A table
  without one of the three columns is skipped. \<^verbatim>\<open>pd.DataFrame([])\<close> has no column
  \<^verbatim>\<open>count\<close>, so sorting raises \<^verbatim>\<open>KeyError\<close> when the table yields no phrase at all.
  \<open>csv_rows\<close> is \<^verbatim>\<open>csv_df\<close> before it is sorted.

  \<^verbatim>\<open>total_articles = len(article_groups)\<close> is the library's count of the groups of the
  frame. For a frame in which a key cell is missing, the versions of pandas do not agree
  on it: some count a group for a key with a missing part, although the loop never visits
  such a group. The count is therefore the parameter \<open>groupby_len\<close>, applied to the frame
  that was grouped.
\<close>

record input_csv =
  csv_name :: string
  columns :: "string list"
  rows :: "sentence_row list"

record csv_result =
  total_sentences :: nat
  total_articles :: nat
  csv_rows :: "phrase_record list"

datatype csv_outcome = Skipped "string list" | Raised py_error | Processed csv_result

definition missing_cols :: "input_csv \<Rightarrow> string list" where
  "missing_cols t = filter (\<lambda>col. col \<notin> set (columns t)) [''sentence'', ''title'', ''date'']"

definition table_noun_dict :: "string set \<Rightarrow> chunker \<Rightarrow> sentence_row list \<Rightarrow> phrase_dict" where
  "table_noun_dict stop_words nlp df =
     csv_noun_dict (article_noun_phrases stop_words nlp (article_groups df))"

definition process_csv ::
  "string set \<Rightarrow> chunker \<Rightarrow> (sentence_row list \<Rightarrow> nat) \<Rightarrow> input_csv \<Rightarrow> csv_outcome" where
  "process_csv stop_words nlp groupby_len t =
     (if missing_cols t \<noteq> [] then Skipped (missing_cols t)
      else
        let df = dropna_sentence (rows t);
            recs = csv_records (csv_name t) (table_noun_dict stop_words nlp df)
        in if recs = [] then Raised (KeyError ''count'')
           else Processed \<lparr>total_sentences = length df,
                           total_articles = groupby_len df,
                           csv_rows = recs\<rparr>)"

subsection \<open>Combining the tables of one run\<close>

text \<open>\<^verbatim>\<open>", ".join(sorted(set(x)))\<close>.\<close>

definition join_sources :: "string list \<Rightarrow> string" where
  "join_sources x = join '', '' (sort (remdups x))"

text \<open>
  Lines 189 to 198: nothing is combined when no table was processed; otherwise the
  concatenated rows are grouped by the exact text of \<^verbatim>\<open>phrase\<close> (groups in ascending key
  order), counts are summed and sources joined. \<open>aggregated\<close> is the frame before the last
  \<^verbatim>\<open>sort_values\<close> of line 199.
\<close>

definition phrase_group :: "phrase_record list \<Rightarrow> string \<Rightarrow> phrase_record" where
  "phrase_group combined_df p =
     (let g = filter (\<lambda>r. phrase r = p) combined_df
      in \<lparr>phrase = p, pos = ''NOUN_PHRASE'', count_n = sum_list (map count_n g),
          csv_source = join_sources (map csv_source g)\<rparr>)"

definition aggregated :: "phrase_record list list \<Rightarrow> phrase_record list option" where
  "aggregated all_results =
     (if all_results = [] then None
      else let combined_df = concat all_results
        in Some (map (phrase_group combined_df) (sort (remdups (map phrase combined_df)))))"

section \<open>The Merger (\<^verbatim>\<open>2_combine-noun-phrases.py\<close>)\<close>

subsection \<open>Files and frames\<close>

text \<open>
  A phrase table as it stands in a file: which of the four columns its header names, and
  its data lines, field by field. The field of a column that the header does not name
  carries no information. The count column holds 64-bit integers, as the column that
  \<^verbatim>\<open>to_csv\<close> writes from an integer column does; a file whose count column would be
  read as a column of floating-point numbers is not described.
\<close>

record phrase_line =
  phrase_field :: string
  pos_field :: string
  count_field :: "64 word"
  source_field :: string

record phrase_table =
  has_phrase :: bool
  has_pos :: bool
  has_count :: bool
  has_csv_source :: bool
  table_lines :: "phrase_line list"

datatype read_result = ReadError | Table phrase_table

record csv_file =
  stem :: string
  content :: read_result

text \<open>
  \<^verbatim>\<open>pd.read_csv\<close> is called with its defaults: a text field that is one of the library's
  markers of a missing value is read as NaN, here \<open>None\<close>.
\<close>

definition na_values :: "string list" where
  "na_values =
     [[], ''#N/A'', ''#N/A N/A'', ''#NA'', ''-1.#IND'', ''-1.#QNAN'', ''-NaN'', ''-nan'',
      ''1.#IND'', ''1.#QNAN'', ''<NA>'', ''N/A'', ''NA'', ''NULL'', ''NaN'', ''None'', ''n/a'',
      ''nan'', ''null'']"

definition read_cell :: "string \<Rightarrow> string option" where
  "read_cell s = (if s \<in> set na_values then None else Some s)"

text \<open>
  A row of a frame in memory, with the column \<^verbatim>\<open>phrase_lower\<close> that the \<^verbatim>\<open>try\<close>
  block adds, and a frame with what the later steps ask of its columns.
\<close>

record frame_row =
  phrase_c :: "string option"
  pos_c :: "string option"
  count_c :: "64 word"
  csv_source_c :: "string option"
  phrase_lower_c :: "string option"

record frame =
  with_pos :: bool
  with_count :: bool
  frame_rows :: "frame_row list"

datatype log_line = Loaded string nat | ErrorLoading string

subsection \<open>Loading\<close>

text \<open>
  The body of the \<^verbatim>\<open>try\<close> block on one line of a table that was read: a table without
  the column \<^verbatim>\<open>csv_source\<close> gets the file's stem in every row (line 27), and
  \<^verbatim>\<open>.str.lower()\<close> leaves a missing phrase missing (line 30). A row of a table without
  the column \<^verbatim>\<open>pos\<close> has no \<^verbatim>\<open>pos\<close> once the frames are concatenated.
\<close>

definition load_line :: "string \<Rightarrow> phrase_table \<Rightarrow> phrase_line \<Rightarrow> frame_row" where
  "load_line stem_name t l =
     (let p = read_cell (phrase_field l) in
      \<lparr>phrase_c = p,
        pos_c = (if has_pos t then read_cell (pos_field l) else None),
        count_c = count_field l,
        csv_source_c =
          (if has_csv_source t then read_cell (source_field l) else Some stem_name),
        phrase_lower_c = map_option lower p\<rparr>)"

text \<open>
  The whole \<^verbatim>\<open>try\<close> block (lines 23 to 35); \<open>None\<close> is the \<^verbatim>\<open>except\<close> branch. Besides a
  file that cannot be read, line 30 fails for a table without the column \<^verbatim>\<open>phrase\<close>
  (\<^verbatim>\<open>KeyError\<close>) and for a table with lines all of whose phrases are missing: its column
  is a column of numbers, which has no \<^verbatim>\<open>.str\<close> (\<^verbatim>\<open>AttributeError\<close>).
\<close>

definition load_csv :: "csv_file \<Rightarrow> frame option" where
  "load_csv f =
     (case content f of
        ReadError \<Rightarrow> None
      | Table t \<Rightarrow>
          if \<not> has_phrase t then None
          else if table_lines t \<noteq> [] \<and>
                  list_all (\<lambda>l. read_cell (phrase_field l) = None) (table_lines t)
          then None
          else Some \<lparr>with_pos = has_pos t, with_count = has_count t,
                      frame_rows = map (load_line (stem f) t) (table_lines t)\<rparr>)"

definition load_all :: "csv_file list \<Rightarrow> frame list" where
  "load_all csv_files = List.map_filter load_csv csv_files"

definition load_log :: "csv_file list \<Rightarrow> log_line list" where
  "load_log csv_files =
     map (\<lambda>f. case load_csv f of
                 Some df \<Rightarrow> Loaded (stem f @ ''.csv'') (length (frame_rows df))
               | None \<Rightarrow> ErrorLoading (stem f @ ''.csv'')) csv_files"

text \<open>\<^verbatim>\<open>pd.concat(all_dfs, ignore_index=True)\<close>: the rows of the frames, one frame after the
  other.\<close>

definition combined_rows :: "frame list \<Rightarrow> frame_row list" where
  "combined_rows all_dfs = concat (map frame_rows all_dfs)"

subsection \<open>Grouping\<close>

text \<open>
  \<^verbatim>\<open>groupby(['phrase_lower', 'pos'], as_index=False)\<close> with the defaults of pandas: a row
  with a missing key cell belongs to no group, and the groups come in ascending order of
  their keys.
\<close>

definition merge_key :: "frame_row \<Rightarrow> (string \<times> string) option" where
  "merge_key r =
     (case phrase_lower_c r of None \<Rightarrow> None
      | Some pl \<Rightarrow> (case pos_c r of None \<Rightarrow> None | Some q \<Rightarrow> Some (pl, q)))"

definition kept_rows :: "frame_row list \<Rightarrow> frame_row list" where
  "kept_rows df = filter (\<lambda>r. merge_key r \<noteq> None) df"

text \<open>A row of the merged frame (line 50).\<close>

record merged_row =
  phrase_m :: string
  pos_m :: string
  count_m :: "64 word"
  csv_source_m :: string

text \<open>
  The aggregation of one group (lines 44 to 46): \<^verbatim>\<open>'first'\<close> is the first phrase of the
  group that is not missing, \<^verbatim>\<open>'sum'\<close> adds the 64-bit counts with wrap-around, and the
  sources are joined. Every row of a group has a phrase, since its \<^verbatim>\<open>phrase_lower\<close> is
  not missing.
\<close>

definition merge_group :: "string \<times> string \<Rightarrow> frame_row list \<Rightarrow> merged_row option" where
  "merge_group k g =
     (case List.map_filter phrase_c g of
        [] \<Rightarrow> None
      | p # _ \<Rightarrow>
          Some \<lparr>phrase_m = p, pos_m = snd k, count_m = sum_list (map count_c g),
                csv_source_m = join_sources (List.map_filter csv_source_c g)\<rparr>)"

definition merged_df :: "frame_row list \<Rightarrow> merged_row list" where
  "merged_df combined_df =
     List.map_filter (\<lambda>k. merge_group k (filter (\<lambda>r. merge_key r = Some k) combined_df))
       (sort (remdups (List.map_filter merge_key combined_df)))"

text \<open>
  \<open>merge_csvs_by_phrase\<close> up to line 50. An empty folder raises at line 16 and
  \<^verbatim>\<open>pd.concat\<close> raises when no file was loaded. After that, outside the \<^verbatim>\<open>try\<close> block:
  grouping raises \<^verbatim>\<open>KeyError\<close> when no loaded table has the column \<^verbatim>\<open>pos\<close>, the
  aggregation raises \<^verbatim>\<open>KeyError\<close> when none has the column \<^verbatim>\<open>count\<close>, and the
  function joining the sources raises \<^verbatim>\<open>TypeError\<close> when a row of a group has no
  source, a missing value being a number and not a text. When some loaded tables have the
  column \<^verbatim>\<open>count\<close> and others do not, the concatenated column holds floating-point
  numbers and missing values; its sums are not computed here (\<open>Float_counts\<close>).
  Otherwise the value is the merged frame before the \<^verbatim>\<open>sort_values\<close> of line 53.
\<close>

datatype merge_outcome = Raises py_error | Float_counts | Merged "merged_row list"

definition merge_csvs_by_phrase :: "csv_file list \<Rightarrow> merge_outcome" where
  "merge_csvs_by_phrase csv_files =
     (if csv_files = [] then Raises (ValueError ''No CSV files found'')
      else let all_dfs = load_all csv_files
        in if all_dfs = [] then Raises (ValueError ''No objects to concatenate'')
           else if \<not> list_ex with_pos all_dfs then Raises (KeyError ''pos'')
           else if \<not> list_ex with_count all_dfs then Raises (KeyError ''count'')
           else if list_ex (\<lambda>r. csv_source_c r = None) (kept_rows (combined_rows all_dfs))
             then Raises TypeError
           else if \<not> list_all with_count all_dfs then Float_counts
           else Merged (merged_df (combined_rows all_dfs)))"


text \<open>
  A table that the Extractor wrote with \<^verbatim>\<open>to_csv\<close> (line 151), as the Merger finds it:
  all four columns, the texts as they are and the counts as 64-bit integers.
\<close>

definition to_line :: "phrase_record \<Rightarrow> phrase_line" where
  "to_line r =
     \<lparr>phrase_field = phrase r, pos_field = pos r, count_field = word_of_int (count_n r),
       source_field = csv_source r\<rparr>"

definition written_file :: "string \<Rightarrow> phrase_record list \<Rightarrow> csv_file" where
  "written_file name out =
     \<lparr>stem = name @ ''_noun_phrases'',
       content = Table \<lparr>has_phrase = True, has_pos = True, has_count = True,
         has_csv_source = True, table_lines = map to_line out\<rparr>\<rparr>"

section \<open>Measures used in the statements\<close>

text \<open>
  The total of the counts that a frame records for one phrase key, the key of a row
  being its lower-cased \<^verbatim>\<open>phrase\<close>.
\<close>

definition key_total :: "string \<Rightarrow> phrase_record list \<Rightarrow> int" where
  "key_total k df = sum_list (map count_n (filter (\<lambda>r. lower (phrase r) = k) df))"

text \<open>The same total for a merged frame, the 64-bit counts read as signed integers.\<close>

definition merged_total :: "string \<Rightarrow> merged_row list \<Rightarrow> int" where
  "merged_total k df =
     sum_list (map (\<lambda>y. sint (count_m y)) (filter (\<lambda>y. lower (phrase_m y) = k) df))"

text \<open>
  The phrases of one article that reach its dictionary, in the order in which the chunk
  loop meets them, and the same for a whole table, article after article in the order of
  the groups.
\<close>

definition occurrences :: "string set \<Rightarrow> chunker \<Rightarrow> sentence_row list \<Rightarrow> string list" where
  "occurrences stop_words nlp grp =
     List.map_filter (clean_phrase stop_words) (concat (map nlp (sentences grp)))"

definition table_occurrences :: "string set \<Rightarrow> chunker \<Rightarrow> sentence_row list \<Rightarrow> string list" where
  "table_occurrences stop_words nlp df =
     concat (map (\<lambda>g. occurrences stop_words nlp (snd g)) (article_groups df))"

text \<open>
  The number of occurrences with the phrase key \<open>k\<close>; the forms of \<open>k\<close> that differ
  from \<open>k\<close> itself (they hold an upper-case letter); the first such form of a list of
  occurrences, or \<open>k\<close> when there is none.
\<close>

definition key_count :: "string \<Rightarrow> string list \<Rightarrow> nat" where
  "key_count k ps = length (filter (\<lambda>p. lower p = k) ps)"

definition cased :: "string \<Rightarrow> string \<Rightarrow> bool" where
  "cased k p = (lower p = k \<and> p \<noteq> k)"

definition preferred :: "string \<Rightarrow> string list \<Rightarrow> string" where
  "preferred k ps = (case find (cased k) ps of Some p \<Rightarrow> p | None \<Rightarrow> k)"

text \<open>
  What a dictionary holds under \<open>k\<close> after the occurrences \<open>ps\<close> were added, when it
  held \<open>m\<close> before.
\<close>

definition absorb :: "string \<Rightarrow> (string \<times> nat) option \<Rightarrow> string list \<Rightarrow> (string \<times> nat) option" where
  "absorb k m ps =
     (case m of
        None \<Rightarrow> if key_count k ps = 0 then None else Some (preferred k ps, key_count k ps)
      | Some (orig, c) \<Rightarrow> Some (if orig = k then preferred k ps else orig, c + key_count k ps))"

text \<open>The pair recorded for the key \<open>k\<close> in the dictionary of the article \<open>a\<close>.\<close>

definition recorded :: "article_dict \<Rightarrow> article_key \<Rightarrow> string \<Rightarrow> (string \<times> nat) option" where
  "recorded st a k = (case map_of st a of None \<Rightarrow> None | Some d \<Rightarrow> map_of d k)"

text \<open>The entry that one article with at least one phrase adds to the \<^verbatim>\<open>defaultdict\<close>.\<close>

definition article_entry ::
  "string set \<Rightarrow> chunker \<Rightarrow> article_key \<times> sentence_row list \<Rightarrow> article_key \<times> phrase_dict" where
  "article_entry stop_words nlp g = (fst g, foldl add_phrase [] (occurrences stop_words nlp (snd g)))"

text \<open>The sentence count of a processed table, as the summary table shows it.\<close>

definition outcome_sentences :: "csv_outcome \<Rightarrow> nat option" where
  "outcome_sentences res =
     (case res of Processed r \<Rightarrow> Some (total_sentences r) | Skipped cols \<Rightarrow> None
      | Raised e \<Rightarrow> None)"

section \<open>Example inputs\<close>

definition rec :: "string \<Rightarrow> int \<Rightarrow> string \<Rightarrow> phrase_record" where
  "rec p c s = \<lparr>phrase = p, pos = ''NOUN_PHRASE'', count_n = c, csv_source = s\<rparr>"

definition table_a :: "phrase_record list" where
  "table_a = [rec ''Accra'' 3 ''a'']"

definition table_b :: "phrase_record list" where
  "table_b = [rec ''accra'' 2 ''b'', rec ''Accra'' 1 ''b'']"

definition line :: "string \<Rightarrow> string \<Rightarrow> 64 word \<Rightarrow> string \<Rightarrow> phrase_line" where
  "line p q c s = \<lparr>phrase_field = p, pos_field = q, count_field = c, source_field = s\<rparr>"

definition mrow :: "string \<Rightarrow> string \<Rightarrow> 64 word \<Rightarrow> string \<Rightarrow> merged_row" where
  "mrow p q c s = \<lparr>phrase_m = p, pos_m = q, count_m = c, csv_source_m = s\<rparr>"

definition file_a :: csv_file where
  "file_a =
     \<lparr>stem = ''a'',
       content = Table \<lparr>has_phrase = True, has_pos = True, has_count = True,
         has_csv_source = True,
         table_lines = [line ''Accra'' ''NOUN_PHRASE'' 3 ''a'', line ''Ghana'' ''NOUN_PHRASE'' 1 ''a'']\<rparr>\<rparr>"

definition file_b :: csv_file where
  "file_b =
     \<lparr>stem = ''b'',
       content = Table \<lparr>has_phrase = True, has_pos = True, has_count = True,
         has_csv_source = False,
         table_lines = [line ''accra'' ''NOUN_PHRASE'' 2 [], line ''Accra'' ''NOUN_PHRASE'' 1 []]\<rparr>\<rparr>"

definition bad_file :: csv_file where
  "bad_file = \<lparr>stem = ''broken'', content = ReadError\<rparr>"

text \<open>A chunker for the examples: the whole sentence is its only noun chunk.\<close>

definition whole_sentence :: chunker where
  "whole_sentence s = [s]"

definition row :: "string option \<Rightarrow> string option \<Rightarrow> string option \<Rightarrow> sentence_row" where
  "row s t d = \<lparr>sentence = s, title = t, date = d\<rparr>"

definition news :: "sentence_row list \<Rightarrow> input_csv" where
  "news rs = \<lparr>csv_name = ''news'', columns = [''sentence'', ''title'', ''date'', ''url''],
     rows = rs\<rparr>"

definition gov_rows :: "sentence_row list" where
  "gov_rows =
     [row (Some ''the government'') (Some ''T'') (Some ''D''),
      row (Some ''The Government'') (Some ''T'') (Some ''D''),
      row (Some '' the government'') (Some ''T'') (Some ''D'')]"

definition accra_rows :: "sentence_row list" where
  "accra_rows =
     [row (Some ''Accra'') (Some ''B'') (Some ''D''),
      row (Some ''accra'') (Some ''A'') (Some ''D''),
      row (Some ''Accra'') (Some ''B'') (Some ''D''),
      row (Some ''accra'') (Some ''A'') (Some ''D''),
      row (Some ''the Accra'') (Some ''B'') (Some ''D'')]"

definition null_rows :: "sentence_row list" where
  "null_rows =
     [row (Some ''null'') (Some ''A'') (Some ''D''),
      row (Some ''Accra'') (Some ''A'') (Some ''D''),
      row (Some ''the null'') (Some ''B'') (Some ''D'')]"

text \<open>A count of groups for the examples: the groups that the article loop visits.\<close>

definition visited_groups :: "sentence_row list \<Rightarrow> nat" where
  "visited_groups df = length (article_groups df)"

section \<open>Properties of the string functions\<close>

lemma split_from_nonempty: "[] \<notin> set (split_from cur s)"
  by (induction s arbitrary: cur) auto

lemma split_nonempty: "[] \<notin> set (split s)"
  by (simp add: split_def split_from_nonempty)

lemma split_Nil: "split [] = []"
  by (simp add: split_def)

lemma join_eq_Nil: "[] \<notin> set ws \<Longrightarrow> join sep ws = [] \<longleftrightarrow> ws = []"
  by (induction sep ws rule: join.induct) auto

lemma pop_stopwords_dropWhile:
  "pop_stopwords stop_words ws = dropWhile (\<lambda>w. lower w \<in> stop_words) ws"
  by (induction ws) auto

section \<open>Stop-word stripping\<close>

text \<open>
  C8. A word is a stop word when its lower-cased form is in the stop-word set.
  \<open>strip_leading_stopwords\<close> drops the longest prefix of stop words from the words of
  the phrase and joins the rest with single blanks. In the chunk loop, a chunk whose
  words are all stop words (or that has no word at all) leaves the dictionary as it was:
  no record is made and nothing is raised; any other chunk is recorded under the
  stripped phrase.
\<close>

theorem stopword_stripping:
  "strip_leading_stopwords p stop_words =
     join '' '' (dropWhile (\<lambda>w. lower w \<in> stop_words) (split p)) \<and>
   process_chunk stop_words a st chunk_text =
     (let ws = dropWhile (\<lambda>w. lower w \<in> stop_words) (split (strip chunk_text))
      in if ws = [] then st else record_phrase st a (join '' '' ws))"
proof -
  let ?ws = "dropWhile (\<lambda>w. lower w \<in> stop_words) (split (strip chunk_text))"
  have "[] \<notin> set ?ws"
    using split_nonempty set_dropWhileD by fastforce
  then have e: "join '' '' ?ws = [] \<longleftrightarrow> ?ws = []"
    by (rule join_eq_Nil)
  show ?thesis
  proof (cases "strip chunk_text = []")
    case True
    then show ?thesis
      by (simp add: strip_leading_stopwords_def pop_stopwords_dropWhile process_chunk_def
          clean_phrase_def split_Nil)
  next
    case False
    then show ?thesis using e
      by (simp add: strip_leading_stopwords_def pop_stopwords_dropWhile process_chunk_def
          clean_phrase_def Let_def)
  qed
qed

theorem stopword_stripping_witness:
  "strip_leading_stopwords ''the economic growth'' {''the''} = ''economic growth'' \<and>
   process_chunk {''the''} (''t'', ''d'') [] '' The '' = [] \<and>
   process_chunk {''the''} (''t'', ''d'') [] ''the Economic growth'' =
     [((''t'', ''d''), [(''economic growth'', (''Economic growth'', 1))])]"
  using
    stopword_stripping [of "''the economic growth''" "{''the''}" "(''t'', ''d'')" "[]" "'' The ''"]
    stopword_stripping [of "''the economic growth''" "{''the''}" "(''t'', ''d'')" "[]"
      "''the Economic growth''"]
  by (simp add: split_def strip_def lower_def lower_char_def is_space_def record_phrase_def
      add_phrase_def char_of_eq_iff)

section \<open>Sums over groups\<close>

lemma sum_list_perm:
  fixes c :: "'a \<Rightarrow> 'b::comm_monoid_add"
  assumes "mset ys = mset xs"
  shows "sum_list (map c (filter P ys)) = sum_list (map c (filter P xs))"
proof -
  have "mset (map c (filter P ys)) = mset (map c (filter P xs))"
    using assms by simp
  then show ?thesis
    by (metis sum_mset_sum_list)
qed

lemma sum_list_one_key:
  fixes v :: "'b::comm_monoid_add"
  assumes "distinct ks"
  shows "sum_list (map (\<lambda>k. if y = k then v else 0) ks) = (if y \<in> set ks then v else 0)"
  using assms by (induction ks) auto

lemma sum_list_groups:
  fixes c :: "'a \<Rightarrow> 'b::comm_monoid_add"
  assumes "distinct ks"
  shows "sum_list (map (\<lambda>k. sum_list (map c (filter (\<lambda>x. f x = k) xs))) ks) =
    sum_list (map c (filter (\<lambda>x. f x \<in> set ks) xs))"
proof (induction xs)
  case Nil
  show ?case by simp
next
  case (Cons x xs)
  have "sum_list (map (\<lambda>k. sum_list (map c (filter (\<lambda>x. f x = k) (x # xs)))) ks) =
    sum_list (map (\<lambda>k. (if f x = k then c x else 0) + sum_list (map c (filter (\<lambda>x. f x = k) xs))) ks)"
    by (rule arg_cong [where f = sum_list]) simp
  also have "\<dots> = sum_list (map (\<lambda>k. if f x = k then c x else 0) ks) +
      sum_list (map (\<lambda>k. sum_list (map c (filter (\<lambda>x. f x = k) xs))) ks)"
    by (simp add: sum_list_addf)
  also have "\<dots> = (if f x \<in> set ks then c x else 0) +
      sum_list (map c (filter (\<lambda>x. f x \<in> set ks) xs))"
    using assms by (simp add: sum_list_one_key Cons.IH)
  finally show ?case by simp
qed



lemma map_filter_groups:
  assumes "\<forall>k\<in>set ks. \<exists>y. f k = Some y \<and> g y = k \<and> h y = v k"
  shows "map h (filter (\<lambda>y. Q (g y)) (List.map_filter f ks)) = map v (filter Q ks)"
  using assms by (induction ks) (auto simp: List.map_filter_simps)

section \<open>The Combiner's groups\<close>

lemma join_sources_set: "join_sources x = join '', '' (sorted_list_of_set (set x))"
  by (simp add: join_sources_def sorted_list_of_set_sort_remdups)

lemma phrase_group_fields:
  "phrase (phrase_group c p) = p"
  "pos (phrase_group c p) = ''NOUN_PHRASE''"
  "count_n (phrase_group c p) = sum_list (map count_n (filter (\<lambda>r. phrase r = p) c))"
  "csv_source (phrase_group c p) =
     join '', '' (sorted_list_of_set (csv_source ` {r \<in> set c. phrase r = p}))"
  by (simp_all add: phrase_group_def Let_def join_sources_set)

lemma aggregated_SomeD:
  assumes "aggregated all_results = Some agg"
  shows "all_results \<noteq> []"
    and "agg = map (phrase_group (concat all_results))
      (sort (remdups (map phrase (concat all_results))))"
  using assms by (auto simp: aggregated_def Let_def split: if_splits)

lemma aggregated_phrases:
  assumes "aggregated all_results = Some agg"
  shows "map phrase agg = sort (remdups (map phrase (concat all_results)))"
  by (simp add: aggregated_SomeD(2) [OF assms] comp_def phrase_group_fields(1))

text \<open>
  C5. The Combiner runs only when some table was processed. Let \<open>out\<close> be the sorted
  frame it writes. Its rows have pairwise different phrases, and their phrases are those
  of the concatenated tables, compared as they are written and not lower-cased. Each row
  carries the sum of the counts of the rows with exactly its phrase and the sorted set of
  their sources joined by comma and blank. Hence two rows of the tables whose phrases
  have the same lower-cased form but differ in case are shown by two different rows.
\<close>

theorem combiner_groups:
  assumes "aggregated all_results = Some agg" and "sort_values_count agg out"
  shows "all_results \<noteq> [] \<and>
    distinct (map phrase out) \<and>
    set (map phrase out) = set (map phrase (concat all_results)) \<and>
    (\<forall>y\<in>set out. pos y = ''NOUN_PHRASE'' \<and>
       count_n y =
         sum_list (map count_n (filter (\<lambda>r. phrase r = phrase y) (concat all_results))) \<and>
       csv_source y = join '', '' (sorted_list_of_set
         (csv_source ` {r \<in> set (concat all_results). phrase r = phrase y}))) \<and>
    (\<forall>r1\<in>set (concat all_results). \<forall>r2\<in>set (concat all_results).
       lower (phrase r1) = lower (phrase r2) \<and> phrase r1 \<noteq> phrase r2 \<longrightarrow>
       (\<exists>y1\<in>set out. \<exists>y2\<in>set out. y1 \<noteq> y2 \<and> phrase y1 = phrase r1 \<and> phrase y2 = phrase r2))"
proof -
  let ?c = "concat all_results"
  note a = aggregated_SomeD [OF assms(1)]
  from assms(2) have p: "mset out = mset agg"
    by (simp add: sort_values_count_def)
  then have pk: "mset (map phrase out) = mset (map phrase agg)"
    by simp
  have "distinct (map phrase agg)"
    by (simp add: aggregated_phrases [OF assms(1)])
  with pk have 1: "distinct (map phrase out)"
    using mset_eq_imp_distinct_iff by blast
  from pk have "set (map phrase out) = set (map phrase agg)"
    by (rule mset_eq_setD)
  then have 2: "set (map phrase out) = set (map phrase ?c)"
    by (simp add: aggregated_phrases [OF assms(1)])
  have 3: "pos y = ''NOUN_PHRASE'' \<and>
       count_n y = sum_list (map count_n (filter (\<lambda>r. phrase r = phrase y) ?c)) \<and>
       csv_source y = join '', '' (sorted_list_of_set
         (csv_source ` {r \<in> set ?c. phrase r = phrase y}))"
    if "y \<in> set out" for y
  proof -
    from that p have "y \<in> set agg"
      using mset_eq_setD by blast
    then obtain q where "y = phrase_group ?c q"
      by (auto simp: a(2))
    then show ?thesis
      by (simp add: phrase_group_fields)
  qed
  have 4: "\<exists>y1\<in>set out. \<exists>y2\<in>set out. y1 \<noteq> y2 \<and> phrase y1 = phrase r1 \<and> phrase y2 = phrase r2"
    if "r1 \<in> set ?c" "r2 \<in> set ?c" "phrase r1 \<noteq> phrase r2" for r1 r2
  proof -
    from that(1) have "phrase r1 \<in> set (map phrase out)"
      unfolding 2 by simp
    then obtain y1 where y1: "y1 \<in> set out" "phrase y1 = phrase r1"
      by auto
    from that(2) have "phrase r2 \<in> set (map phrase out)"
      unfolding 2 by simp
    then obtain y2 where y2: "y2 \<in> set out" "phrase y2 = phrase r2"
      by auto
    from y1 y2 that(3) have "y1 \<noteq> y2"
      by auto
    with y1 y2 show ?thesis
      by blast
  qed
  show ?thesis
    using a(1) 1 2 3 4 by blast
qed

theorem combiner_groups_witness:
  "aggregated [table_a, table_b] = Some [rec ''Accra'' 4 ''a, b'', rec ''accra'' 2 ''b''] \<and>
   sort_values_count [rec ''Accra'' 4 ''a, b'', rec ''accra'' 2 ''b'']
     [rec ''Accra'' 4 ''a, b'', rec ''accra'' 2 ''b''] \<and>
   distinct (map phrase [rec ''Accra'' 4 ''a, b'', rec ''accra'' 2 ''b'']) \<and>
   set (map phrase [rec ''Accra'' 4 ''a, b'', rec ''accra'' 2 ''b'']) =
     set (map phrase (concat [table_a, table_b]))"
proof -
  have 1: "aggregated [table_a, table_b] =
    Some [rec ''Accra'' 4 ''a, b'', rec ''accra'' 2 ''b'']"
    by code_simp
  have 2: "sort_values_count [rec ''Accra'' 4 ''a, b'', rec ''accra'' 2 ''b'']
    [rec ''Accra'' 4 ''a, b'', rec ''accra'' 2 ''b'']"
    by (simp add: sort_values_count_def rec_def)
  show ?thesis
    using combiner_groups [OF 1 2] 1 2 by blast
qed

section \<open>Conservation of counts in the Combiner\<close>

lemma key_total_concat: "key_total k (concat tables) = sum_list (map (key_total k) tables)"
  by (induction tables) (simp_all add: key_total_def)

lemma key_total_perm: "mset out = mset df \<Longrightarrow> key_total k out = key_total k df"
  unfolding key_total_def by (rule sum_list_perm)

lemma key_total_aggregated:
  assumes "aggregated all_results = Some agg"
  shows "key_total k agg = key_total k (concat all_results)"
proof -
  let ?c = "concat all_results"
  let ?ps = "sort (remdups (map phrase ?c))"
  let ?qs = "filter (\<lambda>p. lower p = k) ?ps"
  have agg: "agg = map (phrase_group ?c) ?ps"
    by (rule aggregated_SomeD(2) [OF assms])
  have "filter (\<lambda>r. lower (phrase r) = k) agg = map (phrase_group ?c) ?qs"
    by (simp add: agg filter_map comp_def phrase_group_fields(1))
  then have "key_total k agg =
    sum_list (map (\<lambda>p. sum_list (map count_n (filter (\<lambda>r. phrase r = p) ?c))) ?qs)"
    by (simp add: key_total_def comp_def phrase_group_fields(3))
  also have "\<dots> = sum_list (map count_n (filter (\<lambda>r. phrase r \<in> set ?qs) ?c))"
    by (rule sum_list_groups) simp
  also have "filter (\<lambda>r. phrase r \<in> set ?qs) ?c = filter (\<lambda>r. lower (phrase r) = k) ?c"
    by (rule filter_cong) auto
  finally show ?thesis
    by (simp add: key_total_def)
qed

text \<open>
  The Combiner creates and loses nothing: for every phrase key, the counts that its
  sorted output records for the key add up to the sum, over the tables it was given, of
  the counts each table records for the key.
\<close>

lemma combiner_conservation:
  assumes "aggregated all_results = Some agg" and "sort_values_count agg out"
  shows "key_total k out = sum_list (map (key_total k) all_results)"
proof -
  from assms(2) have "mset out = mset agg"
    by (simp add: sort_values_count_def)
  then have "key_total k out = key_total k agg"
    by (rule key_total_perm)
  with key_total_aggregated [OF assms(1)] show ?thesis
    by (simp add: key_total_concat)
qed

section \<open>Dictionaries\<close>

lemma map_of_dict_set: "map_of (dict_set d k v) = (map_of d)(k \<mapsto> v)"
  by (induction d k v rule: dict_set.induct) auto

lemma dict_set_new: "k \<notin> fst ` set d \<Longrightarrow> dict_set d k v = d @ [(k, v)]"
  by (induction d k v rule: dict_set.induct) auto

lemma dict_set_twice: "dict_set (dict_set d k v) k w = dict_set d k w"
  by (induction d k v rule: dict_set.induct) auto

lemma keys_dict_set: "fst ` set (dict_set d k v) = insert k (fst ` set d)"
  by (induction d k v rule: dict_set.induct) auto

lemma distinct_dict_set:
  "distinct (map fst d) \<Longrightarrow> distinct (map fst (dict_set d k v))"
proof (induction d k v rule: dict_set.induct)
  case (1 k v)
  show ?case by simp
next
  case (2 k' v' d k v)
  then show ?case
    using keys_dict_set [of d k v] by auto
qed

section \<open>The dictionary of one article\<close>

lemma find_append:
  "find P (xs @ ys) = (case find P xs of None \<Rightarrow> find P ys | Some x \<Rightarrow> Some x)"
  by (induction xs) auto

lemma key_count_simps:
  "key_count k [] = 0"
  "key_count k (p # ps) = (if lower p = k then 1 else 0) + key_count k ps"
  "key_count k (xs @ ys) = key_count k xs + key_count k ys"
  by (simp_all add: key_count_def)

lemma preferred_simps:
  "preferred k [] = k"
  "preferred k (p # ps) = (if lower p = k \<and> p \<noteq> k then p else preferred k ps)"
  by (simp_all add: preferred_def cased_def)

lemma preferred_no_key: "key_count k ps = 0 \<Longrightarrow> preferred k ps = k"
  by (induction ps) (auto simp: key_count_simps preferred_simps split: if_splits)

lemma preferred_append:
  "preferred k (xs @ ys) = (if preferred k xs = k then preferred k ys else preferred k xs)"
  by (induction xs) (auto simp: preferred_simps)

lemma preferred_cased: "preferred k ps \<noteq> k \<Longrightarrow> lower (preferred k ps) = k"
  by (induction ps) (auto simp: preferred_simps split: if_splits)

lemma lower_preferred: "key_count k ps \<noteq> 0 \<Longrightarrow> lower (preferred k ps) = k"
proof (induction ps)
  case Nil
  then show ?case by (simp add: key_count_simps)
next
  case (Cons p ps)
  show ?case
  proof (cases "preferred k (p # ps) = k")
    case False
    then show ?thesis by (rule preferred_cased)
  next
    case True
    show ?thesis
    proof (cases "lower p = k")
      case l: True
      with True have "p = k"
        by (auto simp: preferred_simps split: if_splits)
      with l True show ?thesis by simp
    next
      case False
      with Cons.prems have "key_count k ps \<noteq> 0"
        by (simp add: key_count_simps)
      with False Cons.IH show ?thesis
        by (simp add: preferred_simps)
    qed
  qed
qed

lemma preferred_find: "find (cased k) ps = Some q \<Longrightarrow> preferred k ps = q \<and> q \<noteq> k"
  by (auto simp: preferred_def cased_def dest: find_Some_iff [THEN iffD1])

lemma absorb_Nil: "absorb k m [] = m"
  by (auto simp: absorb_def key_count_simps preferred_simps split: option.splits)

lemma absorb_Cons:
  "absorb k m (p # ps) =
     absorb k (if lower p = k
       then (case m of None \<Rightarrow> Some (p, 1)
             | Some (orig, c) \<Rightarrow> Some (if p \<noteq> k \<and> orig = k then p else orig, c + 1))
       else m) ps"
  by (auto simp: absorb_def key_count_simps preferred_simps split: option.splits)

lemma absorb_append: "absorb k (absorb k m xs) ys = absorb k m (xs @ ys)"
  by (induction xs arbitrary: m) (simp_all add: absorb_Nil absorb_Cons)

lemma absorb_None_Some:
  "absorb k None ps = Some (orig, c) \<Longrightarrow> lower orig = k \<and> c = key_count k ps \<and> c \<noteq> 0"
  by (auto simp: absorb_def lower_preferred split: if_splits)

lemma absorb_cased:
  assumes "p \<in> set ps" "lower p = k" "p \<noteq> k"
  shows "\<exists>orig c. absorb k None ps = Some (orig, c) \<and> orig \<noteq> k \<and> find (cased k) ps = Some orig"
proof -
  from assms have "cased k p"
    by (simp add: cased_def)
  with assms(1) obtain q where q: "find (cased k) ps = Some q"
    by (cases "find (cased k) ps") (auto simp: find_None_iff)
  from assms have "key_count k ps \<noteq> 0"
    by (auto simp: key_count_def filter_empty_conv)
  with q preferred_find [OF q] show ?thesis
    by (simp add: absorb_def)
qed

lemma map_of_add_phrase:
  "map_of (add_phrase d p) k =
     (if lower p = k
       then (case map_of d k of None \<Rightarrow> Some (p, 1)
             | Some (orig, c) \<Rightarrow> Some (if p \<noteq> k \<and> orig = k then p else orig, c + 1))
       else map_of d k)"
  by (auto simp: add_phrase_def Let_def map_of_dict_set split: option.splits)

lemma map_of_foldl_add_phrase:
  "map_of (foldl add_phrase d ps) k = absorb k (map_of d k) ps"
  by (induction ps arbitrary: d) (simp_all add: absorb_Nil absorb_Cons map_of_add_phrase)

lemma distinct_add_phrase: "distinct (map fst d) \<Longrightarrow> distinct (map fst (add_phrase d p))"
  by (auto simp: add_phrase_def Let_def distinct_dict_set split: option.splits)

lemma distinct_foldl_add_phrase:
  "distinct (map fst d) \<Longrightarrow> distinct (map fst (foldl add_phrase d ps))"
  by (induction ps arbitrary: d) (simp_all add: distinct_add_phrase)

section \<open>The article loop\<close>

lemma foldl_record_phrase:
  "foldl (\<lambda>st p. record_phrase st a p) st ps =
     (if ps = [] then st
      else dict_set st a (foldl add_phrase (case map_of st a of Some d \<Rightarrow> d | None \<Rightarrow> []) ps))"
proof (induction ps arbitrary: st)
  case Nil
  show ?case by simp
next
  case (Cons p ps)
  have "foldl (\<lambda>st p. record_phrase st a p) st (p # ps) =
    foldl (\<lambda>st p. record_phrase st a p) (record_phrase st a p) ps"
    by simp
  also have "\<dots> = (if ps = [] then record_phrase st a p
      else dict_set (record_phrase st a p) a
        (foldl add_phrase
          (case map_of (record_phrase st a p) a of Some d \<Rightarrow> d | None \<Rightarrow> []) ps))"
    by (rule Cons.IH)
  also have "\<dots> = dict_set st a
      (foldl add_phrase (case map_of st a of Some d \<Rightarrow> d | None \<Rightarrow> []) (p # ps))"
    by (simp add: record_phrase_def map_of_dict_set dict_set_twice)
  finally show ?case
    by simp
qed

lemma foldl_process_chunk:
  "foldl (process_chunk stop_words a) st chunks =
     foldl (\<lambda>st p. record_phrase st a p) st (List.map_filter (clean_phrase stop_words) chunks)"
  by (induction chunks arbitrary: st)
    (simp_all add: List.map_filter_simps process_chunk_def split: option.splits)

lemma foldl_foldl_concat:
  "foldl (\<lambda>st x. foldl f st (h x)) st xs = foldl f st (concat (map h xs))"
  by (induction xs arbitrary: st) simp_all

lemma map_filter_concat:
  "List.map_filter f (concat xss) = concat (map (List.map_filter f) xss)"
  by (induction xss) (simp_all add: List.map_filter_def)

lemma process_article_occurrences:
  "process_article stop_words nlp st g =
     foldl (\<lambda>st p. record_phrase st (fst g) p) st (occurrences stop_words nlp (snd g))"
proof -
  have "process_article stop_words nlp st g =
    foldl (\<lambda>st s. foldl (process_chunk stop_words (fst g)) st (nlp s)) st (sentences (snd g))"
    by (simp add: process_article_def process_doc_def [abs_def])
  then show ?thesis
    by (simp add: foldl_foldl_concat foldl_process_chunk occurrences_def map_filter_concat
        comp_def)
qed

lemma process_article_new:
  assumes "fst g \<notin> fst ` set st"
  shows "process_article stop_words nlp st g =
    (if occurrences stop_words nlp (snd g) = [] then st
     else st @ [article_entry stop_words nlp g])"
proof -
  from assms have "map_of st (fst g) = None"
    by (simp add: map_of_eq_None_iff)
  with assms show ?thesis
    by (simp add: process_article_occurrences foldl_record_phrase dict_set_new article_entry_def)
qed

lemma foldl_process_article:
  assumes "distinct (map fst groups)" and "\<forall>g\<in>set groups. fst g \<notin> fst ` set st"
  shows "foldl (process_article stop_words nlp) st groups =
    st @ map (article_entry stop_words nlp)
      (filter (\<lambda>g. occurrences stop_words nlp (snd g) \<noteq> []) groups)"
  using assms
proof (induction groups arbitrary: st)
  case Nil
  show ?case by simp
next
  case (Cons g groups)
  let ?st = "process_article stop_words nlp st g"
  from Cons.prems have new: "fst g \<notin> fst ` set st"
    by simp
  have keys: "fst ` set ?st \<subseteq> insert (fst g) (fst ` set st)"
    unfolding process_article_new [OF new] article_entry_def
    by (cases "occurrences stop_words nlp (snd g) = []") (simp_all add: subset_insertI)
  from Cons.prems have "fst g \<notin> fst ` set groups"
    by simp
  then have "\<forall>h\<in>set groups. fst h \<noteq> fst g"
    by (metis imageI)
  with Cons.prems have "\<forall>h\<in>set groups. fst h \<notin> insert (fst g) (fst ` set st)"
    by simp
  with keys have fresh: "\<forall>h\<in>set groups. fst h \<notin> fst ` set ?st"
    by blast
  from Cons.prems have "distinct (map fst groups)"
    by simp
  from this fresh have "foldl (process_article stop_words nlp) ?st groups =
    ?st @ map (article_entry stop_words nlp)
      (filter (\<lambda>g. occurrences stop_words nlp (snd g) \<noteq> []) groups)"
    by (rule Cons.IH)
  then show ?case
    by (simp add: process_article_new [OF new])
qed

lemma distinct_article_groups: "distinct (map fst (article_groups df))"
  by (simp add: article_groups_def group_keys_def comp_def)

lemma article_noun_phrases_entries:
  "article_noun_phrases stop_words nlp (article_groups df) =
     map (article_entry stop_words nlp)
       (filter (\<lambda>g. occurrences stop_words nlp (snd g) \<noteq> []) (article_groups df))"
  unfolding article_noun_phrases_def
  using foldl_process_article [OF distinct_article_groups, of df "[]" stop_words nlp]
  by simp

lemma map_of_entries:
  assumes "distinct (map fst gs)" and "(a, grp) \<in> set gs"
  shows "map_of (map (\<lambda>g. (fst g, F g)) (filter Q gs)) a =
    (if Q (a, grp) then Some (F (a, grp)) else None)"
  using assms
proof (induction gs)
  case Nil
  then show ?case by simp
next
  case (Cons g gs)
  show ?case
  proof (cases "g = (a, grp)")
    case True
    from Cons.prems have "a \<notin> fst ` set gs"
      by (simp add: True)
    then have "a \<notin> fst ` set (map (\<lambda>g. (fst g, F g)) (filter Q gs))"
      by force
    then have "map_of (map (\<lambda>g. (fst g, F g)) (filter Q gs)) a = None"
      by (simp add: map_of_eq_None_iff)
    then show ?thesis
      by (simp add: True)
  next
    case False
    with Cons.prems have in_gs: "(a, grp) \<in> set gs" and d: "distinct (map fst gs)"
      by simp_all
    from in_gs have "a \<in> fst ` set gs"
      by force
    with Cons.prems have "fst g \<noteq> a"
      by auto
    then show ?thesis
      by (simp add: Cons.IH [OF d in_gs])
  qed
qed

lemma recorded_article:
  assumes "(a, grp) \<in> set (article_groups df)"
  shows "recorded (article_noun_phrases stop_words nlp (article_groups df)) a k =
    absorb k None (occurrences stop_words nlp grp)"
proof -
  have "map_of (article_noun_phrases stop_words nlp (article_groups df)) a =
    (if occurrences stop_words nlp grp \<noteq> []
     then Some (foldl add_phrase [] (occurrences stop_words nlp grp)) else None)"
    unfolding article_noun_phrases_entries article_entry_def
    using map_of_entries [OF distinct_article_groups assms,
        of "\<lambda>g. foldl add_phrase [] (occurrences stop_words nlp (snd g))"
          "\<lambda>g. occurrences stop_words nlp (snd g) \<noteq> []"]
    by simp
  then show ?thesis
    by (simp add: recorded_def map_of_foldl_add_phrase absorb_Nil)
qed

text \<open>
  C1. For an article of the table (a group of rows with the same title and date), the
  count recorded under a phrase key is the number of the article's occurrences with that
  key, over all its sentences; a key without occurrence has no record. Three sentences
  that each hold the phrase once give the count 3.
\<close>

theorem per_article_count:
  assumes "(a, grp) \<in> set (article_groups df)"
  shows "map_option snd (recorded (article_noun_phrases stop_words nlp (article_groups df)) a k) =
    (if key_count k (occurrences stop_words nlp grp) = 0 then None
     else Some (key_count k (occurrences stop_words nlp grp)))"
  by (simp add: recorded_article [OF assms] absorb_def)

theorem per_article_count_witness:
  "((''T'', ''D''), gov_rows) \<in> set (article_groups gov_rows) \<and>
   map_option snd
     (recorded (article_noun_phrases {''the''} whole_sentence (article_groups gov_rows))
        (''T'', ''D'') ''government'') = Some 3"
proof -
  have 1: "((''T'', ''D''), gov_rows) \<in> set (article_groups gov_rows)"
    by code_simp
  have 2: "key_count ''government'' (occurrences {''the''} whole_sentence gov_rows) = 3"
    by code_simp
  show ?thesis
    using per_article_count [OF 1, of "{''the''}" whole_sentence "''government''"] 1
    unfolding 2 by simp
qed

section \<open>The dictionary of one table\<close>

lemma map_of_merge_item:
  "map_of (merge_item d (k', (orig, c))) k =
     (if k' = k
       then (case map_of d k of None \<Rightarrow> Some (orig, c)
             | Some (old, oc) \<Rightarrow> Some (if orig \<noteq> k \<and> old = k then orig else old, oc + c))
       else map_of d k)"
  by (auto simp: merge_item_def map_of_dict_set split: option.splits)

lemma map_of_foldl_merge_item:
  assumes "distinct (map fst ap)"
  shows "map_of (foldl merge_item d ap) k =
    (case map_of ap k of
       None \<Rightarrow> map_of d k
     | Some (orig, c) \<Rightarrow>
         (case map_of d k of None \<Rightarrow> Some (orig, c)
          | Some (old, oc) \<Rightarrow> Some (if orig \<noteq> k \<and> old = k then orig else old, oc + c)))"
  using assms
proof (induction ap arbitrary: d)
  case Nil
  show ?case by simp
next
  case (Cons item ap)
  obtain k' orig c where item: "item = (k', (orig, c))"
    by (cases item) auto
  from Cons.prems have d: "distinct (map fst ap)" and new: "k' \<notin> fst ` set ap"
    by (simp_all add: item)
  from new have none: "map_of ap k' = None"
    by (simp add: map_of_eq_None_iff)
  show ?case
  proof (cases "k' = k")
    case True
    with none show ?thesis
      by (simp add: item Cons.IH [OF d] map_of_merge_item)
  next
    case False
    then have "map_of (merge_item d (k', (orig, c))) k = map_of d k"
      by (simp add: map_of_merge_item)
    with False show ?thesis
      by (simp add: item Cons.IH [OF d] cong: option.case_cong)
  qed
qed

lemma map_of_merge_article:
  "map_of (foldl merge_item d (foldl add_phrase [] occ)) k = absorb k (map_of d k) occ"
proof -
  have "distinct (map fst (foldl add_phrase [] occ))"
    by (rule distinct_foldl_add_phrase) simp
  then show ?thesis
    by (auto simp: map_of_foldl_merge_item map_of_foldl_add_phrase absorb_def preferred_no_key
        split: option.splits)
qed

lemma map_of_merge_articles:
  "map_of (foldl (\<lambda>d ap. foldl merge_item d ap) d (map (foldl add_phrase []) occs)) k =
     absorb k (map_of d k) (concat occs)"
proof (induction occs arbitrary: d)
  case Nil
  show ?case by (simp add: absorb_Nil)
next
  case (Cons occ occs)
  show ?case
    by (simp add: Cons.IH map_of_merge_article absorb_append)
qed

lemma concat_skip_empty: "concat (map h (filter (\<lambda>g. h g \<noteq> []) gs)) = concat (map h gs)"
  by (induction gs) simp_all

lemma map_of_table_noun_dict:
  "map_of (table_noun_dict stop_words nlp df) k =
     absorb k None (table_occurrences stop_words nlp df)"
proof -
  let ?occ = "\<lambda>g. occurrences stop_words nlp (snd g)"
  let ?gs = "filter (\<lambda>g. ?occ g \<noteq> []) (article_groups df)"
  have "map snd (article_noun_phrases stop_words nlp (article_groups df)) =
    map (foldl add_phrase []) (map ?occ ?gs)"
    by (simp add: article_noun_phrases_entries article_entry_def comp_def)
  then have "map_of (table_noun_dict stop_words nlp df) k =
    map_of (foldl (\<lambda>d ap. foldl merge_item d ap) []
      (map (foldl add_phrase []) (map ?occ ?gs))) k"
    by (simp only: table_noun_dict_def csv_noun_dict_def)
  also have "\<dots> = absorb k (map_of [] k) (concat (map ?occ ?gs))"
    by (rule map_of_merge_articles)
  finally show ?thesis
    by (simp add: table_occurrences_def concat_skip_empty)
qed

text \<open>
  C4. Let \<open>p\<close> be a form of the key \<open>k\<close> that differs from \<open>k\<close>. If \<open>p\<close> occurs in an
  article, the text recorded for \<open>k\<close> in that article differs from \<open>k\<close> and is the first
  occurrence of the article that is such a form. If \<open>p\<close> occurs in the table, the text
  recorded for \<open>k\<close> in the table's dictionary differs from \<open>k\<close> and is the first such
  occurrence of the table, the articles taken in the order in which they are processed.
\<close>

theorem canonical_casing:
  assumes "lower p = k" and "p \<noteq> k"
  shows "((a, grp) \<in> set (article_groups df) \<and> p \<in> set (occurrences stop_words nlp grp) \<longrightarrow>
      (\<exists>orig c.
         recorded (article_noun_phrases stop_words nlp (article_groups df)) a k = Some (orig, c) \<and>
         orig \<noteq> k \<and>
         find (\<lambda>q. lower q = k \<and> q \<noteq> k) (occurrences stop_words nlp grp) = Some orig)) \<and>
    (p \<in> set (table_occurrences stop_words nlp df) \<longrightarrow>
      (\<exists>orig c.
         map_of (table_noun_dict stop_words nlp df) k = Some (orig, c) \<and> orig \<noteq> k \<and>
         find (\<lambda>q. lower q = k \<and> q \<noteq> k) (table_occurrences stop_words nlp df) = Some orig))"
  using assms absorb_cased [of p _ k]
  by (auto simp: recorded_article map_of_table_noun_dict cased_def [abs_def])

theorem canonical_casing_witness:
  "lower ''Accra'' = ''accra'' \<and>
   recorded (article_noun_phrases {''the''} whole_sentence (article_groups accra_rows))
     (''B'', ''D'') ''accra'' = Some (''Accra'', 3) \<and>
   table_noun_dict {''the''} whole_sentence accra_rows = [(''accra'', (''Accra'', 5))]"
proof -
  have 1: "lower ''Accra'' = ''accra''"
    by code_simp
  have 2: "''Accra'' \<noteq> ''accra''"
    by simp
  have 3: "((''B'', ''D''), filter (\<lambda>r. title r = Some ''B'') accra_rows) \<in>
    set (article_groups accra_rows)"
    by code_simp
  have 4: "''Accra'' \<in> set (occurrences {''the''} whole_sentence
    (filter (\<lambda>r. title r = Some ''B'') accra_rows))"
    by code_simp
  have 5: "''Accra'' \<in> set (table_occurrences {''the''} whole_sentence accra_rows)"
    by code_simp
  have 6: "find (\<lambda>q. lower q = ''accra'' \<and> q \<noteq> ''accra'')
    (occurrences {''the''} whole_sentence (filter (\<lambda>r. title r = Some ''B'') accra_rows)) =
    Some ''Accra''"
    by code_simp
  have 7: "find (\<lambda>q. lower q = ''accra'' \<and> q \<noteq> ''accra'')
    (table_occurrences {''the''} whole_sentence accra_rows) = Some ''Accra''"
    by code_simp
  have 8: "snd (the (recorded
    (article_noun_phrases {''the''} whole_sentence (article_groups accra_rows))
     (''B'', ''D'') ''accra'')) = 3"
    by code_simp
  have 9: "table_noun_dict {''the''} whole_sentence accra_rows = [(''accra'', (''Accra'', 5))]"
    by code_simp
  from canonical_casing [OF 1 2, of "(''B'', ''D'')"
      "filter (\<lambda>r. title r = Some ''B'') accra_rows" accra_rows "{''the''}" whole_sentence] 3 4 6
  obtain c where "recorded
    (article_noun_phrases {''the''} whole_sentence (article_groups accra_rows))
     (''B'', ''D'') ''accra'' = Some (''Accra'', c)"
    by auto
  with 8 have "recorded
    (article_noun_phrases {''the''} whole_sentence (article_groups accra_rows))
     (''B'', ''D'') ''accra'' = Some (''Accra'', 3)"
    by simp
  with 1 9 show ?thesis
    by simp
qed

section \<open>One record per phrase key in the table of one input\<close>

lemma distinct_merge_item: "distinct (map fst d) \<Longrightarrow> distinct (map fst (merge_item d item))"
  by (cases item) (auto simp: merge_item_def distinct_dict_set split: option.splits)

lemma distinct_foldl_merge_item:
  "distinct (map fst d) \<Longrightarrow> distinct (map fst (foldl merge_item d ap))"
  by (induction ap arbitrary: d) (simp_all add: distinct_merge_item)

lemma distinct_csv_noun_dict: "distinct (map fst (csv_noun_dict anp))"
proof -
  have "distinct (map fst d) \<Longrightarrow>
    distinct (map fst (foldl (\<lambda>d ap. foldl merge_item d ap) d aps))" for d aps
    by (induction aps arbitrary: d) (simp_all add: distinct_foldl_merge_item)
  then show ?thesis
    by (simp add: csv_noun_dict_def)
qed

lemma table_noun_dict_entry:
  assumes "(k, (orig, c)) \<in> set (table_noun_dict stop_words nlp df)"
  shows "lower orig = k"
proof -
  have "distinct (map fst (table_noun_dict stop_words nlp df))"
    by (simp add: table_noun_dict_def distinct_csv_noun_dict)
  with assms have "map_of (table_noun_dict stop_words nlp df) k = Some (orig, c)"
    by simp
  then show ?thesis
    using absorb_None_Some by (simp add: map_of_table_noun_dict)
qed

lemma filter_key_distinct:
  "distinct (map fst d) \<Longrightarrow>
     filter (\<lambda>e. fst e = k) d = (case map_of d k of None \<Rightarrow> [] | Some v \<Rightarrow> [(k, v)])"
proof (induction d)
  case Nil
  show ?case by simp
next
  case (Cons e d)
  obtain k' v where e: "e = (k', v)" by (cases e)
  show ?case
  proof (cases "k' = k")
    case True
    with Cons.prems have "k \<notin> fst ` set d"
      by (simp add: e)
    then have "filter (\<lambda>e. fst e = k) d = []"
      by (auto simp: filter_empty_conv)
    with True show ?thesis by (simp add: e)
  next
    case False
    with Cons show ?thesis by (simp add: e)
  qed
qed

lemma csv_records_key:
  "filter (\<lambda>r. lower (phrase r) = k) (csv_records name (table_noun_dict stop_words nlp df)) =
     (if key_count k (table_occurrences stop_words nlp df) = 0 then []
      else [\<lparr>phrase = preferred k (table_occurrences stop_words nlp df),
             pos = ''NOUN_PHRASE'',
             count_n = int (key_count k (table_occurrences stop_words nlp df)),
             csv_source = name\<rparr>])"
proof -
  let ?d = "table_noun_dict stop_words nlp df"
  let ?mk = "\<lambda>v. \<lparr>phrase = fst v, pos = ''NOUN_PHRASE'', count_n = int (snd v),
    csv_source = name\<rparr>"
  have d: "distinct (map fst ?d)"
    by (simp add: table_noun_dict_def distinct_csv_noun_dict)
  have "filter (\<lambda>e. lower (fst (snd e)) = k) ?d = filter (\<lambda>e. fst e = k) ?d"
    by (rule filter_cong) (auto dest: table_noun_dict_entry)
  then have "filter (\<lambda>r. lower (phrase r) = k) (csv_records name ?d) =
    map ?mk (map snd (filter (\<lambda>e. fst e = k) ?d))"
    by (simp add: csv_records_def filter_map comp_def)
  then show ?thesis
    by (simp add: filter_key_distinct [OF d] map_of_table_noun_dict absorb_def)
qed

lemma csv_records_pos: "r \<in> set (csv_records name d) \<Longrightarrow> pos r = ''NOUN_PHRASE''"
  by (auto simp: csv_records_def)

lemma key_count_concat: "key_count k (concat xss) = sum_list (map (key_count k) xss)"
  by (induction xss) (simp_all add: key_count_simps)

lemma occurrences_rows:
  "occurrences stop_words nlp grp = concat (map (\<lambda>r. occurrences stop_words nlp [r]) grp)"
  by (simp add: occurrences_def sentences_def map_filter_concat comp_def)

lemma key_count_rows:
  "key_count k (table_occurrences stop_words nlp df) =
     sum_list (map (\<lambda>r. key_count k (occurrences stop_words nlp [r]))
       (filter (\<lambda>r. row_key r \<noteq> None) df))"
proof -
  define w where "w = (\<lambda>r. key_count k (occurrences stop_words nlp [r]))"
  let ?ks = "map Some (group_keys df)"
  have 1: "key_count k (occurrences stop_words nlp grp) = sum_list (map w grp)" for grp
    by (subst occurrences_rows) (simp add: key_count_concat comp_def w_def)
  have "key_count k (table_occurrences stop_words nlp df) =
    sum_list (map (\<lambda>key. sum_list (map w (filter (\<lambda>r. row_key r = key) df))) ?ks)"
    by (simp add: table_occurrences_def key_count_concat 1 article_groups_def comp_def)
  also have "\<dots> = sum_list (map w (filter (\<lambda>r. row_key r \<in> set ?ks) df))"
    by (rule sum_list_groups) (simp add: group_keys_def distinct_map)
  also have "filter (\<lambda>r. row_key r \<in> set ?ks) df = filter (\<lambda>r. row_key r \<noteq> None) df"
    by (rule filter_cong) (auto simp: group_keys_def List.map_filter_def image_iff)
  finally show ?thesis
    by (simp add: w_def)
qed

lemma key_count_perm:
  assumes "mset df' = mset df"
  shows "key_count k (table_occurrences stop_words nlp df') =
    key_count k (table_occurrences stop_words nlp df)"
  unfolding key_count_rows using assms by (rule sum_list_perm)

lemma length_filter_perm:
  assumes "mset ys = mset xs"
  shows "length (filter P ys) = length (filter P xs)"
proof -
  have "mset (filter P ys) = mset (filter P xs)"
    using assms by simp
  then show ?thesis
    by (rule mset_eq_length)
qed

lemma length_filter_key:
  assumes "distinct (map f ys)"
  shows "length (filter (\<lambda>y. f y = key) ys) = (if key \<in> set (map f ys) then 1 else 0)"
  using assms by (induction ys) auto

text \<open>
  In the table that the Extractor writes for one input, the occurrences with the phrase
  key \<open>k\<close> are shown by exactly one row (none when there is no such occurrence), its count
  is their number, every row carries the tag \<^verbatim>\<open>NOUN_PHRASE\<close>, and the number is the same
  for the rows of the input in any other order.
\<close>

lemma per_table_one_record:
  assumes "sort_values_count (csv_records name (table_noun_dict stop_words nlp df)) out"
  shows "length (filter (\<lambda>r. lower (phrase r) = k) out) =
      (if key_count k (table_occurrences stop_words nlp df) = 0 then 0 else 1) \<and>
    key_total k out = int (key_count k (table_occurrences stop_words nlp df)) \<and>
    (\<forall>r\<in>set out. pos r = ''NOUN_PHRASE'') \<and>
    (\<forall>df'. mset df' = mset df \<longrightarrow>
       key_count k (table_occurrences stop_words nlp df') =
       key_count k (table_occurrences stop_words nlp df))"
proof -
  let ?n = "key_count k (table_occurrences stop_words nlp df)"
  let ?recs = "csv_records name (table_noun_dict stop_words nlp df)"
  from assms have p: "mset out = mset ?recs"
    by (simp add: sort_values_count_def)
  have 1: "length (filter (\<lambda>r. lower (phrase r) = k) out) = (if ?n = 0 then 0 else 1)"
    unfolding length_filter_perm [OF p] csv_records_key by simp
  have 2: "key_total k out = int ?n"
    unfolding key_total_perm [OF p] unfolding key_total_def csv_records_key by simp
  from p have "set out = set ?recs"
    by (rule mset_eq_setD)
  then have 3: "\<forall>r\<in>set out. pos r = ''NOUN_PHRASE''"
    by (simp add: csv_records_pos)
  from 1 2 3 key_count_perm show ?thesis
    by blast
qed

section \<open>Rows without an article key\<close>

lemma row_key_None: "row_key r = None \<longleftrightarrow> title r = None \<or> date r = None"
  by (simp add: row_key_def split: option.splits)

lemma article_groups_skip:
  assumes "row_key r = None"
  shows "article_groups (xs @ r # ys) = article_groups (xs @ ys)"
  using assms by (simp add: article_groups_def group_keys_def List.map_filter_def)

text \<open>
  C10, as amended. A row whose title or date is missing belongs to no article, whether or
  not it has a sentence: the groups and the dictionary of the table are those of the
  table without the row, and so is the outcome of the whole table (skipped, raised, or
  the rows written), apart from two numbers of the summary: the sentence count, which
  still counts the row when its sentence is present, and the article count, which is
  what the library reports for the frame with the row.
\<close>

theorem null_key_row_excluded:
  assumes "title r = None \<or> date r = None"
  shows "article_groups (dropna_sentence (xs @ r # ys)) = article_groups (dropna_sentence (xs @ ys)) \<and>
    table_noun_dict stop_words nlp (dropna_sentence (xs @ r # ys)) =
      table_noun_dict stop_words nlp (dropna_sentence (xs @ ys)) \<and>
    process_csv stop_words nlp groupby_len (t\<lparr>rows := xs @ r # ys\<rparr>) =
      (case process_csv stop_words nlp groupby_len (t\<lparr>rows := xs @ ys\<rparr>) of
         Processed res \<Rightarrow>
           Processed (res\<lparr>total_sentences :=
               total_sentences res + (if sentence r = None then 0 else 1),
             total_articles := groupby_len (dropna_sentence (xs @ r # ys))\<rparr>)
       | other \<Rightarrow> other)"
proof -
  from assms have k: "row_key r = None"
    by (simp add: row_key_None)
  have g: "article_groups (dropna_sentence (xs @ r # ys)) = article_groups (dropna_sentence (xs @ ys))"
    using article_groups_skip [OF k] by (simp add: dropna_sentence_def)
  then have d: "table_noun_dict stop_words nlp (dropna_sentence (xs @ r # ys)) =
      table_noun_dict stop_words nlp (dropna_sentence (xs @ ys))"
    by (simp add: table_noun_dict_def)
  have l: "length (dropna_sentence (xs @ r # ys)) =
    length (dropna_sentence (xs @ ys)) + (if sentence r = None then 0 else 1)"
    by (simp add: dropna_sentence_def)
  have m: "missing_cols (t\<lparr>rows := xs @ r # ys\<rparr>) = missing_cols (t\<lparr>rows := xs @ ys\<rparr>)"
    by (simp add: missing_cols_def)
  have "process_csv stop_words nlp groupby_len (t\<lparr>rows := xs @ r # ys\<rparr>) =
      (case process_csv stop_words nlp groupby_len (t\<lparr>rows := xs @ ys\<rparr>) of
         Processed res \<Rightarrow>
           Processed (res\<lparr>total_sentences :=
               total_sentences res + (if sentence r = None then 0 else 1),
             total_articles := groupby_len (dropna_sentence (xs @ r # ys))\<rparr>)
       | other \<Rightarrow> other)"
    using l by (simp add: process_csv_def m d Let_def)
  with g d show ?thesis
    by (intro conjI)
qed

theorem null_key_row_excluded_witness:
  "(title (row (Some ''Accra'') None (Some ''2025'')) = None \<or>
    date (row (Some ''Accra'') None (Some ''2025'')) = None) \<and>
   table_noun_dict {''the''} whole_sentence
     (dropna_sentence
       [row (Some ''the Government'') (Some ''T'') (Some ''2025''),
        row (Some ''Accra'') None (Some ''2025''),
        row (Some ''the government '') (Some ''T'') (Some ''2025'')]) =
     [(''government'', (''Government'', 2))] \<and>
   process_csv {''the''} whole_sentence visited_groups
     (news [row (Some ''the Government'') (Some ''T'') (Some ''2025''),
            row (Some ''Accra'') None (Some ''2025''),
            row (Some ''the government '') (Some ''T'') (Some ''2025'')]) =
     Processed \<lparr>total_sentences = 3, total_articles = 1,
       csv_rows = [rec ''Government'' 2 ''news'']\<rparr>"
proof -
  let ?x = "row (Some ''the Government'') (Some ''T'') (Some ''2025'')"
  let ?r = "row (Some ''Accra'') None (Some ''2025'')"
  let ?y = "row (Some ''the government '') (Some ''T'') (Some ''2025'')"
  have 1: "title ?r = None \<or> date ?r = None"
    by (simp add: row_def)
  have 2: "table_noun_dict {''the''} whole_sentence (dropna_sentence ([?x] @ [?y])) =
    [(''government'', (''Government'', 2))]"
    by code_simp
  have 3: "process_csv {''the''} whole_sentence visited_groups (news [] \<lparr>rows := [?x] @ [?y]\<rparr>) =
    Processed \<lparr>total_sentences = 2, total_articles = 1,
      csv_rows = [rec ''Government'' 2 ''news'']\<rparr>"
    by code_simp
  have 4: "sentence ?r \<noteq> None"
    by (simp add: row_def)
  have 5: "visited_groups (dropna_sentence ([?x] @ ?r # [?y])) = 1"
    by code_simp
  have 6: "news [] \<lparr>rows := [?x] @ ?r # [?y]\<rparr> = news [?x, ?r, ?y]"
    by (simp add: news_def)
  note t = null_key_row_excluded [OF 1, of "[?x]" "[?y]" "{''the''}" whole_sentence
      visited_groups "news []"]
  from t have "table_noun_dict {''the''} whole_sentence (dropna_sentence ([?x] @ ?r # [?y])) =
    table_noun_dict {''the''} whole_sentence (dropna_sentence ([?x] @ [?y]))"
    by (rule conjunct2 [THEN conjunct1])
  then have a: "table_noun_dict {''the''} whole_sentence (dropna_sentence ([?x] @ ?r # [?y])) =
    [(''government'', (''Government'', 2))]"
    by (simp only: 2)
  from t have "process_csv {''the''} whole_sentence visited_groups
      (news [] \<lparr>rows := [?x] @ ?r # [?y]\<rparr>) =
    (case process_csv {''the''} whole_sentence visited_groups (news [] \<lparr>rows := [?x] @ [?y]\<rparr>) of
       Processed res \<Rightarrow>
         Processed (res\<lparr>total_sentences :=
             total_sentences res + (if sentence ?r = None then 0 else 1),
           total_articles := visited_groups (dropna_sentence ([?x] @ ?r # [?y]))\<rparr>)
     | other \<Rightarrow> other)"
    by (rule conjunct2 [THEN conjunct2])
  then have b: "process_csv {''the''} whole_sentence visited_groups
      (news [] \<lparr>rows := [?x] @ ?r # [?y]\<rparr>) =
    Processed \<lparr>total_sentences = 3, total_articles = 1,
      csv_rows = [rec ''Government'' 2 ''news'']\<rparr>"
    unfolding 3 5 using 4 by simp
  from 1 a b show ?thesis
    unfolding 6 by simp
qed

text \<open>
  The claim as first stated fails: the row is counted in the sentence count of its table,
  which the Extractor writes to the summary table. With the row the count is 3, without
  it 2.
\<close>

theorem null_key_row_counterexample:
  "title (row (Some ''Accra'') None (Some ''2025'')) = None \<and>
   outcome_sentences (process_csv {''the''} whole_sentence visited_groups
     (news [row (Some ''the Government'') (Some ''T'') (Some ''2025''),
            row (Some ''Accra'') None (Some ''2025''),
            row (Some ''the government '') (Some ''T'') (Some ''2025'')])) = Some 3 \<and>
   outcome_sentences (process_csv {''the''} whole_sentence visited_groups
     (news [row (Some ''the Government'') (Some ''T'') (Some ''2025''),
            row (Some ''the government '') (Some ''T'') (Some ''2025'')])) = Some 2"
  by code_simp

section \<open>Failures of the Merger\<close>

lemma load_all_Nil: "load_all fs = [] \<longleftrightarrow> (\<forall>f\<in>set fs. load_csv f = None)"
  by (auto simp: load_all_def List.map_filter_def filter_empty_conv)

lemma load_all_skip: "load_csv f = None \<Longrightarrow> load_all (gs @ f # hs) = load_all (gs @ hs)"
  by (simp add: load_all_def List.map_filter_def)

lemma read_error_fails: "content f = ReadError \<Longrightarrow> load_csv f = None"
  by (simp add: load_csv_def)

text \<open>
  C9. With no file in the folder the Merger raises \<^verbatim>\<open>ValueError\<close> before anything is
  written. A file that cannot be read fails in the \<^verbatim>\<open>try\<close> block. When every file
  fails there, nothing is loaded and the Merger raises (from \<^verbatim>\<open>pd.concat\<close>). A file that
  fails is reported in the log and left out: the frames loaded are those of the other
  files, and when there are other files the outcome is the one obtained without the
  failing file.
\<close>

theorem merger_failures:
  "merge_csvs_by_phrase [] = Raises (ValueError ''No CSV files found'') \<and>
   (content f = ReadError \<longrightarrow> load_csv f = None) \<and>
   (fs \<noteq> [] \<and> (\<forall>g\<in>set fs. load_csv g = None) \<longrightarrow>
      merge_csvs_by_phrase fs = Raises (ValueError ''No objects to concatenate'')) \<and>
   (load_csv f = None \<longrightarrow>
      ErrorLoading (stem f @ ''.csv'') \<in> set (load_log (gs @ f # hs)) \<and>
      load_all (gs @ f # hs) = load_all (gs @ hs) \<and>
      (gs @ hs \<noteq> [] \<longrightarrow> merge_csvs_by_phrase (gs @ f # hs) = merge_csvs_by_phrase (gs @ hs)))"
proof -
  have a: "merge_csvs_by_phrase [] = Raises (ValueError ''No CSV files found'')"
    by (simp add: merge_csvs_by_phrase_def)
  have b: "merge_csvs_by_phrase fs = Raises (ValueError ''No objects to concatenate'')"
    if "fs \<noteq> []" "\<forall>g\<in>set fs. load_csv g = None"
    using that load_all_Nil [of fs] by (simp add: merge_csvs_by_phrase_def)
  have c: "ErrorLoading (stem f @ ''.csv'') \<in> set (load_log (gs @ f # hs))"
    if "load_csv f = None"
    using that by (simp add: load_log_def)
  have d: "merge_csvs_by_phrase (gs @ f # hs) = merge_csvs_by_phrase (gs @ hs)"
    if "load_csv f = None" "gs @ hs \<noteq> []"
    using that load_all_skip [of f gs hs] by (auto simp: merge_csvs_by_phrase_def)
  show ?thesis
    using a b c d load_all_skip [of f gs hs] read_error_fails [of f] by blast
qed

theorem merger_failures_witness:
  "content bad_file = ReadError \<and>
   load_csv bad_file = None \<and>
   merge_csvs_by_phrase [bad_file] = Raises (ValueError ''No objects to concatenate'') \<and>
   load_log [file_a, bad_file, file_b] =
     [Loaded ''a.csv'' 2, ErrorLoading ''broken.csv'', Loaded ''b.csv'' 2] \<and>
   merge_csvs_by_phrase [file_a, bad_file, file_b] = merge_csvs_by_phrase [file_a, file_b] \<and>
   merge_csvs_by_phrase [file_a, file_b] =
     Merged [mrow ''Accra'' ''NOUN_PHRASE'' 6 ''a, b'', mrow ''Ghana'' ''NOUN_PHRASE'' 1 ''a'']"
proof -
  have 1: "content bad_file = ReadError"
    by (simp add: bad_file_def)
  note t = merger_failures [of bad_file "[bad_file]" "[file_a]" "[file_b]"]
  from t 1 have 2: "load_csv bad_file = None"
    by blast
  from t 2 have 3: "merge_csvs_by_phrase [bad_file] =
    Raises (ValueError ''No objects to concatenate'')"
    by simp
  have 4: "load_log [file_a, bad_file, file_b] =
     [Loaded ''a.csv'' 2, ErrorLoading ''broken.csv'', Loaded ''b.csv'' 2]"
    by code_simp
  have 5: "merge_csvs_by_phrase ([file_a] @ [file_b]) =
     Merged [mrow ''Accra'' ''NOUN_PHRASE'' 6 ''a, b'', mrow ''Ghana'' ''NOUN_PHRASE'' 1 ''a'']"
    by code_simp
  from t 2 have 6: "merge_csvs_by_phrase ([file_a] @ bad_file # [file_b]) =
    merge_csvs_by_phrase ([file_a] @ [file_b])"
    by simp
  from 1 2 3 4 5 6 show ?thesis
    by simp
qed

section \<open>The Merger's groups\<close>

















section \<open>Phrases that are read as missing\<close>

text \<open>
  C2, at a phrase that pandas reads as a missing value. The occurrences \<^verbatim>\<open>null\<close> and
  \<^verbatim>\<open>the null\<close> of two articles have the same phrase key; the table that the Extractor
  writes shows them by exactly one row, with count 2. The Merger reads that table back
  with \<^verbatim>\<open>pd.read_csv\<close>, which takes the text \<^verbatim>\<open>null\<close> for a missing value, and the
  grouping drops the row: the merged frame holds no row for the key, where one row with
  count 2 is due.
\<close>

theorem null_phrase_not_merged:
  "csv_records ''news'' (table_noun_dict {''the''} whole_sentence null_rows) =
     [rec ''null'' 2 ''news'', rec ''Accra'' 1 ''news''] \<and>
   sort_values_count [rec ''null'' 2 ''news'', rec ''Accra'' 1 ''news'']
     [rec ''null'' 2 ''news'', rec ''Accra'' 1 ''news''] \<and>
   length (filter (\<lambda>r. lower (phrase r) = ''null'')
     [rec ''null'' 2 ''news'', rec ''Accra'' 1 ''news'']) = 1 \<and>
   merge_csvs_by_phrase
     [written_file ''news'' [rec ''null'' 2 ''news'', rec ''Accra'' 1 ''news'']] =
     Merged [mrow ''Accra'' ''NOUN_PHRASE'' 1 ''news''] \<and>
   length (filter (\<lambda>y. lower (phrase_m y) = ''null'')
     [mrow ''Accra'' ''NOUN_PHRASE'' 1 ''news'']) = 0"
proof -
  have 1: "csv_records ''news'' (table_noun_dict {''the''} whole_sentence null_rows) =
     [rec ''null'' 2 ''news'', rec ''Accra'' 1 ''news'']"
    by code_simp
  have 2: "sort_values_count [rec ''null'' 2 ''news'', rec ''Accra'' 1 ''news'']
     [rec ''null'' 2 ''news'', rec ''Accra'' 1 ''news'']"
    by (simp add: sort_values_count_def rec_def)
  have 3: "length (filter (\<lambda>r. lower (phrase r) = ''null'')
     [rec ''null'' 2 ''news'', rec ''Accra'' 1 ''news'']) = 1"
    by code_simp
  have 4: "merge_csvs_by_phrase
     [written_file ''news'' [rec ''null'' 2 ''news'', rec ''Accra'' 1 ''news'']] =
     Merged [mrow ''Accra'' ''NOUN_PHRASE'' 1 ''news'']"
    by code_simp
  have 5: "length (filter (\<lambda>y. lower (phrase_m y) = ''null'')
     [mrow ''Accra'' ''NOUN_PHRASE'' 1 ''news'']) = 0"
    by code_simp
  from 1 2 3 4 5 show ?thesis
    by (intro conjI)
qed

text \<open>
  C3, at the same table. The table that the Extractor writes records the count 2 for the
  key \<^verbatim>\<open>null\<close> and the count 1 for the key \<^verbatim>\<open>accra\<close>. The output of the Merger records
  1 for \<^verbatim>\<open>accra\<close> and nothing for \<^verbatim>\<open>null\<close>: two occurrences are lost.
\<close>

theorem null_phrase_count_lost:
  "key_total ''null'' [rec ''null'' 2 ''news'', rec ''Accra'' 1 ''news''] = 2 \<and>
   key_total ''accra'' [rec ''null'' 2 ''news'', rec ''Accra'' 1 ''news''] = 1 \<and>
   merge_csvs_by_phrase
     [written_file ''news'' [rec ''null'' 2 ''news'', rec ''Accra'' 1 ''news'']] =
     Merged [mrow ''Accra'' ''NOUN_PHRASE'' 1 ''news''] \<and>
   merged_total ''null'' [mrow ''Accra'' ''NOUN_PHRASE'' 1 ''news''] = 0 \<and>
   merged_total ''accra'' [mrow ''Accra'' ''NOUN_PHRASE'' 1 ''news''] = 1"
proof -
  have 1: "key_total ''null'' [rec ''null'' 2 ''news'', rec ''Accra'' 1 ''news''] = 2"
    by code_simp
  have 2: "key_total ''accra'' [rec ''null'' 2 ''news'', rec ''Accra'' 1 ''news''] = 1"
    by code_simp
  have 3: "merge_csvs_by_phrase
     [written_file ''news'' [rec ''null'' 2 ''news'', rec ''Accra'' 1 ''news'']] =
     Merged [mrow ''Accra'' ''NOUN_PHRASE'' 1 ''news'']"
    by code_simp
  have 4: "merged_total ''null'' [mrow ''Accra'' ''NOUN_PHRASE'' 1 ''news''] = 0"
    by code_simp
  have 5: "merged_total ''accra'' [mrow ''Accra'' ''NOUN_PHRASE'' 1 ''news''] = 1"
    by code_simp
  from 1 2 3 4 5 show ?thesis
    by (intro conjI)
qed

end
